theory Spec2Isabelle
  imports Main "HOL-Library.Word"
begin

section \<open>The count aggregate (planner/count.go)\<close>

subsection \<open>Values held by a document's fields\<close>

text \<open>
  A Go error value; only its message is observed.
\<close>

datatype error = Error string

text \<open>
  A field of \<^verbatim>\<open>core.Doc\<close> is an \<^verbatim>\<open>any\<close>. The datatype lists the dynamic types a field
  can hold: the nil interface, scalars, a nested document, an \<^verbatim>\<open>immutable.Option\<close>,
  a pointer, a map, a channel, a fixed-size array, the nine slice types that the type
  switch of \<^verbatim>\<open>countNode.Next\<close> names, and \<^verbatim>\<open>[]any\<close> for every other slice type.
  A \<^verbatim>\<open>float64\<close> is kept as its 64-bit pattern: the count never computes with it.
  Go's \<^verbatim>\<open>int\<close> is kept as an integer without bound: the count is a sum of lengths of
  values held in memory and does not reach the bound of 64 bits.
\<close>

datatype val =
    GoNil
  | GoBool bool
  | GoInt int
  | GoInt64 "64 word"
  | GoFloat64 "64 word"
  | GoString string
  | GoDoc Doc
  | GoOption "val option"
  | GoPtr val
  | GoMap "(string \<times> val) list"
  | GoChan "val list"
  | GoArray "val list"
  | Docs "Doc list"
  | Bools "bool list"
  | OptBools "bool option list"
  | Int64s "64 word list"
  | OptInt64s "64 word option list"
  | Float64s "64 word list"
  | OptFloat64s "64 word option list"
  | Strings "string list"
  | OptStrings "string option list"
  | Anys "val list"
and Doc = Doc (Hidden: bool) (Fields: "val list")

text \<open>\<^verbatim>\<open>reflect.Kind\<close>, as far as the values above reach it.\<close>

datatype reflect_Kind =
    Kind_Invalid | Kind_Bool | Kind_Int | Kind_Int64 | Kind_Float64 | Kind_Array
  | Kind_Chan | Kind_Map | Kind_Pointer | Kind_Slice | Kind_String | Kind_Struct

fun Kind_of :: "val \<Rightarrow> reflect_Kind" where
  "Kind_of GoNil = Kind_Invalid"
| "Kind_of (GoBool _) = Kind_Bool"
| "Kind_of (GoInt _) = Kind_Int"
| "Kind_of (GoInt64 _) = Kind_Int64"
| "Kind_of (GoFloat64 _) = Kind_Float64"
| "Kind_of (GoString _) = Kind_String"
| "Kind_of (GoDoc _) = Kind_Struct"
| "Kind_of (GoOption _) = Kind_Struct"
| "Kind_of (GoPtr _) = Kind_Pointer"
| "Kind_of (GoMap _) = Kind_Map"
| "Kind_of (GoChan _) = Kind_Chan"
| "Kind_of (GoArray _) = Kind_Array"
| "Kind_of (Docs _) = Kind_Slice"
| "Kind_of (Bools _) = Kind_Slice"
| "Kind_of (OptBools _) = Kind_Slice"
| "Kind_of (Int64s _) = Kind_Slice"
| "Kind_of (OptInt64s _) = Kind_Slice"
| "Kind_of (Float64s _) = Kind_Slice"
| "Kind_of (OptFloat64s _) = Kind_Slice"
| "Kind_of (Strings _) = Kind_Slice"
| "Kind_of (OptStrings _) = Kind_Slice"
| "Kind_of (Anys _) = Kind_Slice"

text \<open>
  \<^verbatim>\<open>reflect.Value.Len\<close>: the length of a string (in bytes), map, channel (queued
  elements), array or slice. On a value of any other kind it panics, which is the
  result \<open>None\<close>.
\<close>

fun Len :: "val \<Rightarrow> nat option" where
  "Len (GoString s) = Some (length s)"
| "Len (GoMap m) = Some (length m)"
| "Len (GoChan q) = Some (length q)"
| "Len (GoArray a) = Some (length a)"
| "Len (Docs a) = Some (length a)"
| "Len (Bools a) = Some (length a)"
| "Len (OptBools a) = Some (length a)"
| "Len (Int64s a) = Some (length a)"
| "Len (OptInt64s a) = Some (length a)"
| "Len (Float64s a) = Some (length a)"
| "Len (OptFloat64s a) = Some (length a)"
| "Len (Strings a) = Some (length a)"
| "Len (OptStrings a) = Some (length a)"
| "Len (Anys a) = Some (length a)"
| "Len _ = None"

subsection \<open>Aggregate targets\<close>

text \<open>
  \<^verbatim>\<open>mapper.Limit\<close> and \<^verbatim>\<open>mapper.AggregateTarget\<close> are declared outside this file; only
  the members that \<^verbatim>\<open>count.go\<close> reads are kept. The two bounds are unsigned and are only
  counted up to. A \<^verbatim>\<open>mapper.Filter\<close> is opaque (the type parameter \<open>'f\<close>): it is only
  handed to \<^verbatim>\<open>mapper.RunFilter\<close>, which is a parameter \<open>RunFilter\<close> of the functions
  below. A nil pointer is \<open>None\<close>.
\<close>

record mapper_Limit =
  Limit_Limit :: nat
  Limit_Offset :: nat

record 'f AggregateTarget =
  Index :: int
  Filter :: "'f option"
  Limit :: "mapper_Limit option"

text \<open>
  A Go function either returns or panics.
\<close>

datatype 'a outcome = Panic | Return 'a

text \<open>
  Indexing a slice with a Go \<^verbatim>\<open>int\<close>: out of range is a run-time panic (\<open>None\<close>).
\<close>

definition index :: "'a list \<Rightarrow> int \<Rightarrow> 'a option" where
  "index xs i = (if 0 \<le> i \<and> i < int (length xs) then Some (xs ! nat i) else None)"

definition assign :: "'a list \<Rightarrow> int \<Rightarrow> 'a \<Rightarrow> 'a list option" where
  "assign xs i v = (if 0 \<le> i \<and> i < int (length xs) then Some (xs[nat i := v]) else None)"

subsection \<open>countDocs and countItems\<close>

text \<open>
  \<^verbatim>\<open>countDocs\<close>: the loop over the slice, with the running count as accumulator.
\<close>

fun countDocs_loop :: "Doc list \<Rightarrow> int \<Rightarrow> int" where
  "countDocs_loop [] count = count"
| "countDocs_loop (doc # docs) count =
     countDocs_loop docs (if \<not> Hidden doc then count + 1 else count)"

definition countDocs :: "Doc list \<Rightarrow> int" where
  "countDocs docs = countDocs_loop docs 0"

text \<open>
  \<^verbatim>\<open>countItems\<close> builds \<^verbatim>\<open>Where\<close>, \<^verbatim>\<open>Skip\<close> and \<^verbatim>\<open>Take\<close> over the source and counts
  with \<^verbatim>\<open>OnEach\<close>. These come from the package \<^verbatim>\<open>immutable/enumerable\<close>, a library
  outside the repository. Its enumerables are pulled lazily, one item at a time:
  \<^verbatim>\<open>Take\<close> stops without pulling once it has handed out its limit, \<^verbatim>\<open>Skip\<close> swallows
  its first \<open>offset\<close> items, \<^verbatim>\<open>Where\<close> pulls until the predicate passes, and the first
  error of the predicate ends the whole count. \<open>pull\<close> is that loop; \<open>skip\<close> is what
  \<^verbatim>\<open>Skip\<close> has still to swallow and \<open>room\<close> what \<^verbatim>\<open>Take\<close> may still hand out (\<open>None\<close>
  when there is no limit).
\<close>

fun pull :: "('a \<Rightarrow> error + bool) \<Rightarrow> nat \<Rightarrow> nat option \<Rightarrow> 'a list \<Rightarrow> int \<Rightarrow> error + int" where
  "pull predicate skip room [] count = Inr count"
| "pull predicate skip room (item # source) count =
     (if room = Some 0 then Inr count
      else case predicate item of
        Inl err \<Rightarrow> Inl err
      | Inr passes \<Rightarrow>
          if \<not> passes then pull predicate skip room source count
          else if 0 < skip then pull predicate (skip - 1) room source count
          else pull predicate 0 (map_option (\<lambda>n. n - 1) room) source (count + 1))"

definition countItems ::
  "('f \<Rightarrow> val \<Rightarrow> error + bool) \<Rightarrow> val list \<Rightarrow> 'f option \<Rightarrow> mapper_Limit option \<Rightarrow> error + int" where
  "countItems RunFilter source flt lim =
     pull (case flt of None \<Rightarrow> (\<lambda>item. Inr True) | Some f \<Rightarrow> RunFilter f)
          (case lim of None \<Rightarrow> 0 | Some l \<Rightarrow> Limit_Offset l)
          (case lim of None \<Rightarrow> None | Some l \<Rightarrow> Some (Limit_Limit l))
          source 0"

subsection \<open>countNode.Next\<close>

text \<open>
  The type switch on the slice's element type. \<^verbatim>\<open>countItems\<close> is generic in the
  element type and hands each item to \<^verbatim>\<open>RunFilter\<close> as an \<^verbatim>\<open>any\<close>; the items are boxed
  here. The switch has no default case: any other dynamic type leaves \<^verbatim>\<open>arrayCount\<close>
  at zero and \<^verbatim>\<open>err\<close> nil.
\<close>

fun arrayCount ::
  "('f \<Rightarrow> val \<Rightarrow> error + bool) \<Rightarrow> val \<Rightarrow> 'f option \<Rightarrow> mapper_Limit option \<Rightarrow> error + int" where
  "arrayCount RunFilter (Docs array) flt lim = Inr (countDocs array)"
| "arrayCount RunFilter (Bools array) flt lim =
     countItems RunFilter (map GoBool array) flt lim"
| "arrayCount RunFilter (OptBools array) flt lim =
     countItems RunFilter (map (\<lambda>x. GoOption (map_option GoBool x)) array) flt lim"
| "arrayCount RunFilter (Int64s array) flt lim =
     countItems RunFilter (map GoInt64 array) flt lim"
| "arrayCount RunFilter (OptInt64s array) flt lim =
     countItems RunFilter (map (\<lambda>x. GoOption (map_option GoInt64 x)) array) flt lim"
| "arrayCount RunFilter (Float64s array) flt lim =
     countItems RunFilter (map GoFloat64 array) flt lim"
| "arrayCount RunFilter (OptFloat64s array) flt lim =
     countItems RunFilter (map (\<lambda>x. GoOption (map_option GoFloat64 x)) array) flt lim"
| "arrayCount RunFilter (Strings array) flt lim =
     countItems RunFilter (map GoString array) flt lim"
| "arrayCount RunFilter (OptStrings array) flt lim =
     countItems RunFilter (map (\<lambda>x. GoOption (map_option GoString x)) array) flt lim"
| "arrayCount RunFilter _ flt lim = Inr 0"

text \<open>
  The loop over \<^verbatim>\<open>n.aggregateMapping\<close>, with \<^verbatim>\<open>count\<close> as accumulator. The result is
  a panic, the error that the loop returns early with, or the final count.
\<close>

fun countSources ::
  "('f \<Rightarrow> val \<Rightarrow> error + bool) \<Rightarrow> val list \<Rightarrow> 'f AggregateTarget list \<Rightarrow> int
     \<Rightarrow> (error + int) outcome" where
  "countSources RunFilter flds [] count = Return (Inr count)"
| "countSources RunFilter flds (source # sources) count =
     (case index flds (Index source) of
        None \<Rightarrow> Panic
      | Some property \<Rightarrow>
          if Kind_of property \<in> {Kind_Array, Kind_Chan, Kind_Map, Kind_Slice, Kind_String} then
            if Filter source = None \<and> Limit source = None then
              (case Len property of
                 None \<Rightarrow> Panic
               | Some len \<Rightarrow> countSources RunFilter flds sources (count + int len))
            else
              (case arrayCount RunFilter property (Filter source) (Limit source) of
                 Inl err \<Rightarrow> Return (Inl err)
               | Inr array_count \<Rightarrow> countSources RunFilter flds sources (count + array_count))
          else countSources RunFilter flds sources count)"

text \<open>
  The node. \<open>plan\<close> is the state of the source plan node, whose \<^verbatim>\<open>Next\<close> and
  \<^verbatim>\<open>Value\<close> methods are the parameters \<open>plan_Next\<close> and \<open>plan_Value\<close>.
\<close>

record ('f, 'p) countNode =
  plan :: 'p
  virtualFieldIndex :: int
  aggregateMapping :: "'f AggregateTarget list"
  currentValue :: Doc
  iterations :: "64 word"

definition Next ::
  "('p \<Rightarrow> (bool \<times> error option) \<times> 'p) \<Rightarrow> ('p \<Rightarrow> Doc) \<Rightarrow> ('f \<Rightarrow> val \<Rightarrow> error + bool)
     \<Rightarrow> ('f, 'p) countNode \<Rightarrow> ((bool \<times> error option) \<times> ('f, 'p) countNode) outcome" where
  "Next plan_Next plan_Value RunFilter n =
     (let n1 = n\<lparr>iterations := iterations n + 1\<rparr>;
          hasValue = fst (fst (plan_Next (plan n1)));
          err = snd (fst (plan_Next (plan n1)));
          n2 = n1\<lparr>plan := snd (plan_Next (plan n1))\<rparr>
      in if err \<noteq> None \<or> \<not> hasValue then Return ((hasValue, err), n2)
         else
           let n3 = n2\<lparr>currentValue := plan_Value (plan n2)\<rparr> in
           case countSources RunFilter (Fields (currentValue n3)) (aggregateMapping n3) 0 of
             Panic \<Rightarrow> Panic
           | Return (Inl err') \<Rightarrow> Return ((False, Some err'), n3)
           | Return (Inr count) \<Rightarrow>
               (case assign (Fields (currentValue n3)) (virtualFieldIndex n3) (GoInt count) of
                  None \<Rightarrow> Panic
                | Some flds \<Rightarrow>
                    Return ((True, None),
                      n3\<lparr>currentValue := Doc (Hidden (currentValue n3)) flds\<rparr>)))"

section \<open>The commit DAG\<close>

text \<open>
  Modelled from the spec: the commit DAG (\<^verbatim>\<open>write\<close>, \<^verbatim>\<open>readHeads\<close>, \<^verbatim>\<open>walkCommits\<close>,
  \<^verbatim>\<open>allCommits\<close>) is exercised by the query tests, which hold only requests and
  expected results; its code is not among the sources. The definitions follow sections
  3 and 4.D of the specification. A commit is the record of section 3. The type \<open>'c\<close>
  is the type of CIDs; the hash that gives a commit its CID is the parameter \<open>cid_of\<close>,
  and the order of CIDs that breaks ties in the traversal is the parameter \<open>cid_le\<close>.
\<close>

record 'c Commit =
  height :: nat
  delta :: string
  links :: "(string \<times> 'c) list"
  schemaVersionID :: string
  dockey :: string
  fieldName :: "string option"

text \<open>
  Modelled from the spec: the block store, the blocks under their CIDs (a later put of
  a CID stands before an earlier one and is the one found), and the head sets, one for
  each document key and field, \<open>None\<close> being the composite series.
\<close>

record 'c dag =
  blocks :: "('c \<times> 'c Commit) list"
  heads :: "string \<times> string option \<Rightarrow> 'c list"

definition get_block :: "'c dag \<Rightarrow> 'c \<Rightarrow> 'c Commit option" where
  "get_block st k = map_of (blocks st) k"

definition readHeads :: "'c dag \<Rightarrow> string \<Rightarrow> string option \<Rightarrow> 'c list" where
  "readHeads st dk field = heads st (dk, field)"

text \<open>
  Modelled from the spec: the height of a commit written with the parent heads \<open>H\<close> is
  one more than the greatest height among \<open>H\<close>, and 1 when \<open>H\<close> is empty (sections 3
  and 8; the links to the field commits of the same write do not count, as the heights
  1 and 2 that \<^verbatim>\<open>TestQueryAllCommitsMultipleDAG\<close> expects show).
\<close>

definition next_height :: "'c dag \<Rightarrow> 'c list \<Rightarrow> nat" where
  "next_height st parents =
     1 + fold max (map (\<lambda>p. case get_block st p of None \<Rightarrow> 0 | Some c \<Rightarrow> height c) parents) 0"

text \<open>
  Modelled from the spec: one commit joins the DAG of its key (section 3, head set):
  its block is stored under its CID, the parents leave the head set and the commit
  enters it.
\<close>

definition put_commit :: "('c Commit \<Rightarrow> 'c) \<Rightarrow> 'c dag \<Rightarrow> 'c list \<Rightarrow> 'c Commit \<Rightarrow> 'c \<times> 'c dag" where
  "put_commit cid_of st parents c =
     (let k = cid_of c;
          key = (dockey c, fieldName c)
      in (k, st\<lparr>blocks := (k, c) # blocks st,
                 heads := (heads st)(key := filter (\<lambda>h. h \<notin> set parents) (heads st key) @ [k])\<rparr>))"

text \<open>
  Modelled from the spec: step 1 of the write algorithm, for one updated field. The
  links of the field commit are the prior heads of the field, under the field's name.
\<close>

definition write_field ::
  "('c Commit \<Rightarrow> 'c) \<Rightarrow> string \<Rightarrow> string \<Rightarrow> 'c dag \<Rightarrow> string \<times> string \<Rightarrow> 'c \<times> 'c dag" where
  "write_field cid_of svid dk st update =
     (let parents = readHeads st dk (Some (fst update))
      in put_commit cid_of st parents
           \<lparr>height = next_height st parents, delta = snd update,
            links = map (\<lambda>p. (fst update, p)) parents,
            schemaVersionID = svid, dockey = dk, fieldName = Some (fst update)\<rparr>)"

fun write_fields ::
  "('c Commit \<Rightarrow> 'c) \<Rightarrow> string \<Rightarrow> string \<Rightarrow> 'c dag \<Rightarrow> (string \<times> string) list
     \<Rightarrow> (string \<times> 'c) list \<times> 'c dag" where
  "write_fields cid_of svid dk st [] = ([], st)"
| "write_fields cid_of svid dk st (update # updates) =
     (let (k, st') = write_field cid_of svid dk st update;
          (ks, st'') = write_fields cid_of svid dk st' updates
      in ((fst update, k) # ks, st''))"

text \<open>
  Modelled from the spec: the write algorithm of section 4.D. Step 2 builds the
  composite commit, whose links are the new field CIDs under their field names and
  the prior composite heads under the empty name. The result is the composite CID,
  the field CIDs and the new state. (\<open>write\<close> is a keyword of the proof language,
  hence the name.)
\<close>

definition dag_write ::
  "('c Commit \<Rightarrow> 'c) \<Rightarrow> string \<Rightarrow> 'c dag \<Rightarrow> string \<Rightarrow> (string \<times> string) list
     \<Rightarrow> ('c \<times> (string \<times> 'c) list) \<times> 'c dag" where
  "dag_write cid_of svid st dk updates =
     (let (fieldCids, st1) = write_fields cid_of svid dk st updates;
          parents = readHeads st1 dk None;
          (k, st2) = put_commit cid_of st1 parents
             \<lparr>height = next_height st1 parents, delta = [],
              links = fieldCids @ map (\<lambda>p. ([], p)) parents,
              schemaVersionID = svid, dockey = dk, fieldName = None\<rparr>
      in ((k, fieldCids), st2))"

text \<open>
  Modelled from the spec: \<^verbatim>\<open>walkCommits\<close> from a list of heads, depth first along the
  links to parent commits of the same series (for the composite series the links
  under the empty name). A CID met twice is yielded once; a CID with no block yields
  nothing.
\<close>

definition parent_links :: "'c Commit \<Rightarrow> 'c list" where
  "parent_links c =
     map snd (filter (\<lambda>l. fst l = (case fieldName c of None \<Rightarrow> [] | Some f \<Rightarrow> f)) (links c))"

function walkCommits :: "('c \<times> 'c Commit) list \<Rightarrow> 'c list \<Rightarrow> 'c list \<Rightarrow> ('c \<times> 'c Commit) list" where
  "walkCommits bs [] seen = []"
| "walkCommits bs (k # todo) seen =
     (if k \<in> set seen then walkCommits bs todo seen
      else case map_of bs k of
        None \<Rightarrow> walkCommits bs todo seen
      | Some c \<Rightarrow> (k, c) # walkCommits bs (parent_links c @ todo) (k # seen))"
  by pat_completeness auto
termination
proof (relation "measures [\<lambda>(bs, todo, seen). card (fst ` set bs - set seen),
                           \<lambda>(bs, todo, seen). length todo]")
  show "wf (measures [\<lambda>(bs, todo, seen). card (fst ` set bs - set seen),
                      \<lambda>(bs, todo, seen). length todo])"
    by simp
next
  fix bs :: "('c \<times> 'c Commit) list" and k :: 'c and todo seen :: "'c list"
  show "((bs, todo, seen), (bs, k # todo, seen))
      \<in> measures [\<lambda>(bs, todo, seen). card (fst ` set bs - set seen),
                   \<lambda>(bs, todo, seen). length todo]"
    by simp
next
  fix bs :: "('c \<times> 'c Commit) list" and k :: 'c and todo seen :: "'c list"
  show "((bs, todo, seen), (bs, k # todo, seen))
      \<in> measures [\<lambda>(bs, todo, seen). card (fst ` set bs - set seen),
                   \<lambda>(bs, todo, seen). length todo]"
    by simp
next
  fix bs :: "('c \<times> 'c Commit) list" and k :: 'c and todo seen :: "'c list" and c
  assume "k \<notin> set seen" and "map_of bs k = Some c"
  then have "k \<in> fst ` set bs - set seen"
    by (auto dest: map_of_SomeD intro: rev_image_eqI)
  then have "fst ` set bs - set (k # seen) \<subset> fst ` set bs - set seen"
    by auto
  then have "card (fst ` set bs - set (k # seen)) < card (fst ` set bs - set seen)"
    by (intro psubset_card_mono) auto
  then show "((bs, parent_links c @ todo, k # seen), (bs, k # todo, seen))
      \<in> measures [\<lambda>(bs, todo, seen). card (fst ` set bs - set seen),
                   \<lambda>(bs, todo, seen). length todo]"
    by simp
qed

text \<open>
  Modelled from the spec: the canonical order of section 4.D, higher height first and,
  at equal height, the CID that \<open>cid_le\<close> puts first; an insertion sort.
\<close>

definition commit_before :: "('c \<Rightarrow> 'c \<Rightarrow> bool) \<Rightarrow> 'c \<times> 'c Commit \<Rightarrow> 'c \<times> 'c Commit \<Rightarrow> bool" where
  "commit_before cid_le x y =
     (height (snd y) < height (snd x) \<or> (height (snd x) = height (snd y) \<and> cid_le (fst x) (fst y)))"

fun insert_commit ::
  "('c \<Rightarrow> 'c \<Rightarrow> bool) \<Rightarrow> 'c \<times> 'c Commit \<Rightarrow> ('c \<times> 'c Commit) list \<Rightarrow> ('c \<times> 'c Commit) list" where
  "insert_commit cid_le x [] = [x]"
| "insert_commit cid_le x (y # ys) =
     (if commit_before cid_le x y then x # y # ys else y # insert_commit cid_le x ys)"

definition canonical_order :: "('c \<Rightarrow> 'c \<Rightarrow> bool) \<Rightarrow> ('c \<times> 'c Commit) list \<Rightarrow> ('c \<times> 'c Commit) list" where
  "canonical_order cid_le cs = foldr (insert_commit cid_le) cs []"

text \<open>
  Modelled from the spec: \<^verbatim>\<open>allCommits(dockey)\<close>, the chains of the current composite
  heads of the document in the canonical order.
\<close>

definition allCommits :: "('c \<Rightarrow> 'c \<Rightarrow> bool) \<Rightarrow> 'c dag \<Rightarrow> string \<Rightarrow> ('c \<times> 'c Commit) list" where
  "allCommits cid_le st dk =
     canonical_order cid_le (walkCommits (blocks st) (readHeads st dk None) [])"

text \<open>
  Modelled from the spec: creating a document is the write of its initial fields
  (section 3, lifecycle); the document is new, so none of its head sets has a member.
\<close>

definition is_new :: "'c dag \<Rightarrow> string \<Rightarrow> bool" where
  "is_new st dk = (\<forall>field. heads st (dk, field) = [])"

text \<open>
  A hash without collisions, for running the definitions: the CID of a commit is the
  tree of its content.
\<close>

datatype merkle = Merkle nat string "(string \<times> merkle) list" string string "string option"

definition merkle_cid :: "merkle Commit \<Rightarrow> merkle" where
  "merkle_cid c =
     Merkle (height c) (delta c) (links c) (schemaVersionID c) (dockey c) (fieldName c)"

definition empty_dag :: "'c dag" where
  "empty_dag = \<lparr>blocks = [], heads = (\<lambda>key. [])\<rparr>"


text \<open>
  The blocks that the field commits of a write add: each stands under its own CID and
  belongs to a field series.
\<close>

definition field_blocks :: "('c Commit \<Rightarrow> 'c) \<Rightarrow> ('c \<times> 'c Commit) list \<Rightarrow> bool" where
  "field_blocks cid_of new = (\<forall>(k, c) \<in> set new. k = cid_of c \<and> fieldName c \<noteq> None)"

section \<open>The group node\<close>

text \<open>
  Modelled from the spec: \<^verbatim>\<open>groupNode\<close> is exercised by
  \<^verbatim>\<open>TestQuerySimpleWithGroupByWithGroupWithDocKeys\<close>, which holds only the request and the
  expected result; its code is not among the sources. The definitions follow section
  4.H of the specification. A row is a document key with its cells; the group key of a
  row is the tuple of its cells at the \<^verbatim>\<open>groupBy\<close> indexes (a cell that the row does not
  have is \<open>None\<close>).
\<close>

record row =
  row_dockey :: string
  row_cells :: "val list"

definition key_tuple :: "nat list \<Rightarrow> row \<Rightarrow> val option list" where
  "key_tuple groupBy r =
     map (\<lambda>i. if i < length (row_cells r) then Some (row_cells r ! i) else None) groupBy"

text \<open>
  Modelled from the spec: rows are bucketed by the key tuple. A row joins the bucket
  of its key at the end, or opens a new bucket after the existing ones.
\<close>

fun add_to_bucket ::
  "val option list \<Rightarrow> row \<Rightarrow> (val option list \<times> row list) list
     \<Rightarrow> (val option list \<times> row list) list" where
  "add_to_bucket k r [] = [(k, [r])]"
| "add_to_bucket k r ((k', members) # buckets) =
     (if k = k' then (k', members @ [r]) # buckets
      else (k', members) # add_to_bucket k r buckets)"

definition bucket_rows :: "nat list \<Rightarrow> row list \<Rightarrow> (val option list \<times> row list) list" where
  "bucket_rows groupBy rows = fold (\<lambda>r. add_to_bucket (key_tuple groupBy r) r) rows []"

text \<open>
  Modelled from the spec: the \<^verbatim>\<open>_group\<close> sub-projection of one bucket, honoring the
  optional \<^verbatim>\<open>dockeys\<close> containment, the inner filter and the inner pagination, in this
  order.
\<close>

record 'f group_args =
  group_dockeys :: "string list option"
  group_filter :: "'f option"
  group_limit :: "mapper_Limit option"

definition render_group :: "('f \<Rightarrow> row \<Rightarrow> bool) \<Rightarrow> 'f group_args \<Rightarrow> row list \<Rightarrow> row list" where
  "render_group passes args members =
     (let allowed = (case group_dockeys args of
                       None \<Rightarrow> members
                     | Some keys \<Rightarrow> filter (\<lambda>r. row_dockey r \<in> set keys) members);
          kept = (case group_filter args of
                    None \<Rightarrow> allowed
                  | Some f \<Rightarrow> filter (passes f) allowed)
      in case group_limit args of
           None \<Rightarrow> kept
         | Some l \<Rightarrow> take (Limit_Limit l) (drop (Limit_Offset l) kept))"

text \<open>
  Modelled from the spec: the node yields one row for each bucket, in the order in
  which the buckets were opened: the key tuple with the \<^verbatim>\<open>_group\<close> list of the bucket.
\<close>

definition groupNode ::
  "('f \<Rightarrow> row \<Rightarrow> bool) \<Rightarrow> nat list \<Rightarrow> 'f group_args \<Rightarrow> row list
     \<Rightarrow> (val option list \<times> row list) list" where
  "groupNode passes groupBy args rows =
     map (\<lambda>b. (fst b, render_group passes args (snd b))) (bucket_rows groupBy rows)"

text \<open>
  The four documents of \<^verbatim>\<open>TestQuerySimpleWithGroupByWithGroupWithDocKeys\<close>, each with
  the cells \<^verbatim>\<open>Name\<close> and \<^verbatim>\<open>Age\<close>, in an order that opens the bucket of age 32 first, as
  the expected result does. The test gives the document keys of John and Fred; Bob and
  Shahzad stand under their names, which are not in the allow-list.
\<close>

definition rows_by_age :: "row list" where
  "rows_by_age =
     [\<lparr>row_dockey = ''bob'', row_cells = [GoString ''Bob'', GoInt64 32]\<rparr>,
      \<lparr>row_dockey = ''bae-52b9170d-b77a-5887-b877-cbdbb99b009f'',
       row_cells = [GoString ''John'', GoInt64 21]\<rparr>,
      \<lparr>row_dockey = ''bae-9b2e1434-9d61-5eb1-b3b9-82e8e40729a7'',
       row_cells = [GoString ''Fred'', GoInt64 21]\<rparr>,
      \<lparr>row_dockey = ''shahzad'', row_cells = [GoString ''Shahzad'', GoInt64 21]\<rparr>]"

text \<open>The members of the bucket with the key \<open>k\<close>; none when there is no such bucket.\<close>

definition members_of :: "(val option list \<times> row list) list \<Rightarrow> val option list \<Rightarrow> row list" where
  "members_of bs k = (case map_of bs k of None \<Rightarrow> [] | Some ms \<Rightarrow> ms)"

section \<open>Properties of the count aggregate\<close>

lemma countDocs_loop_eq:
  "countDocs_loop docs count = count + int (length (filter (\<lambda>doc. \<not> Hidden doc) docs))"
  by (induction docs arbitrary: count) auto

lemma countDocs_eq: "countDocs docs = int (length (filter (\<lambda>doc. \<not> Hidden doc) docs))"
  by (simp add: countDocs_def countDocs_loop_eq)

lemma Len_defined:
  "Kind_of v \<in> {Kind_Array, Kind_Chan, Kind_Map, Kind_Slice, Kind_String} \<Longrightarrow> Len v \<noteq> None"
  by (cases v) auto

lemma Len_only_defined:
  "Len v \<noteq> None \<Longrightarrow> Kind_of v \<in> {Kind_Array, Kind_Chan, Kind_Map, Kind_Slice, Kind_String}"
  by (cases v) auto

lemma countSources_no_panic:
  "\<forall>s \<in> set sources. 0 \<le> Index s \<and> Index s < int (length flds) \<Longrightarrow>
   countSources RunFilter flds sources count \<noteq> Panic"
proof (induction sources arbitrary: count)
  case Nil
  then show ?case by simp
next
  case (Cons s sources)
  then obtain property where p: "index flds (Index s) = Some property"
    by (auto simp: index_def)
  show ?case
  proof (cases "Kind_of property \<in> {Kind_Array, Kind_Chan, Kind_Map, Kind_Slice, Kind_String}")
    case True
    then obtain len where "Len property = Some len"
      using Len_defined by blast
    with True p Cons show ?thesis
      by (auto split: sum.splits)
  next
    case False
    with p Cons show ?thesis by auto
  qed
qed

lemma countSources_other_kind:
  "index flds (Index source) = Some property \<Longrightarrow>
   Kind_of property \<notin> {Kind_Array, Kind_Chan, Kind_Map, Kind_Slice, Kind_String} \<Longrightarrow>
   countSources RunFilter flds (source # sources) count =
     countSources RunFilter flds sources count"
  by simp

lemma countSources_plain_length:
  "index flds (Index source) = Some property \<Longrightarrow> Len property = Some len \<Longrightarrow>
   Filter source = None \<Longrightarrow> Limit source = None \<Longrightarrow>
   countSources RunFilter flds (source # sources) count =
     countSources RunFilter flds sources (count + int len)"
  using Len_only_defined [of property] by simp

lemma countSources_docs:
  "index flds (Index source) = Some (Docs docs) \<Longrightarrow>
   Filter source \<noteq> None \<or> Limit source \<noteq> None \<Longrightarrow>
   countSources RunFilter flds (source # sources) count =
     countSources RunFilter flds sources
       (count + int (length (filter (\<lambda>doc. \<not> Hidden doc) docs)))"
  by (auto simp: countDocs_eq)

lemma Next_no_panic:
  assumes "\<forall>s \<in> set (aggregateMapping n).
             0 \<le> Index s \<and> Index s < int (length (Fields (plan_Value (snd (plan_Next (plan n))))))"
    and "0 \<le> virtualFieldIndex n"
    and "virtualFieldIndex n < int (length (Fields (plan_Value (snd (plan_Next (plan n))))))"
  shows "Next plan_Next plan_Value RunFilter n \<noteq> Panic"
proof -
  let ?d = "plan_Value (snd (plan_Next (plan n)))"
  have "countSources RunFilter (Fields ?d) (aggregateMapping n) 0 \<noteq> Panic"
    using assms(1) by (rule countSources_no_panic)
  then show ?thesis
    using assms(2,3)
    by (auto simp: Next_def Let_def assign_def split: outcome.splits sum.splits option.splits)
qed

subsection \<open>C5: what a target contributes to the count\<close>

text \<open>
  C5 as stated: a target whose field value is not an array contributes 0 to the count.
  It fails on a string value: \<^verbatim>\<open>reflect.String\<close> is one of the kinds whose length
  \<^verbatim>\<open>countNode.Next\<close> adds, so a target on the field \<^verbatim>\<open>"John"\<close> with neither filter nor
  limit stores the count 4.
\<close>

theorem count_of_string_counterexample:
  "Next (\<lambda>p. ((True, None), p)) (\<lambda>p. p) (\<lambda>(f::unit) v. Inr True)
     \<lparr>plan = Doc False [GoString ''John'', GoNil], virtualFieldIndex = 1,
      aggregateMapping = [\<lparr>Index = 0, Filter = None, Limit = None\<rparr>],
      currentValue = Doc False [], iterations = 0\<rparr>
   = Return ((True, None),
     \<lparr>plan = Doc False [GoString ''John'', GoNil], virtualFieldIndex = 1,
      aggregateMapping = [\<lparr>Index = 0, Filter = None, Limit = None\<rparr>],
      currentValue = Doc False [GoString ''John'', GoInt 4], iterations = 1\<rparr>)"
  by (simp add: Next_def index_def assign_def)

text \<open>
  C5 as amended. For a target whose field value is \<open>property\<close>:
  a value of a kind other than array, channel, map, slice and string contributes
  nothing; with neither filter nor limit, a value that has a length contributes that
  length; and a slice of documents under a filter or a limit contributes the number
  of its entries that are not marked hidden, whatever the filter and the limit are
  (the sub-select that produced the slice has applied them).
\<close>

theorem countSources_contribution:
  "index flds (Index source) = Some property \<Longrightarrow>
   (Kind_of property \<notin> {Kind_Array, Kind_Chan, Kind_Map, Kind_Slice, Kind_String} \<longrightarrow>
      countSources RunFilter flds (source # sources) count =
        countSources RunFilter flds sources count) \<and>
   (Filter source = None \<and> Limit source = None \<longrightarrow>
      (\<forall>len. Len property = Some len \<longrightarrow>
         countSources RunFilter flds (source # sources) count =
           countSources RunFilter flds sources (count + int len))) \<and>
   (Filter source \<noteq> None \<or> Limit source \<noteq> None \<longrightarrow>
      (\<forall>docs. property = Docs docs \<longrightarrow>
         countSources RunFilter flds (source # sources) count =
           countSources RunFilter flds sources
             (count + int (length (filter (\<lambda>doc. \<not> Hidden doc) docs)))))"
  using countSources_other_kind [of flds source property RunFilter sources count]
    countSources_plain_length [of flds source property _ RunFilter sources count]
    countSources_docs [of flds source _ RunFilter sources count]
  by blast

theorem countSources_contribution_witness:
  "countSources (\<lambda>(f::unit) v. Inr True)
      [GoInt64 7, Docs [Doc False [], Doc True [], Doc False []], GoString ''John'']
      [\<lparr>Index = 0, Filter = None, Limit = None\<rparr>] 0 = Return (Inr 0) \<and>
   countSources (\<lambda>(f::unit) v. Inr True)
      [GoInt64 7, Docs [Doc False [], Doc True [], Doc False []], GoString ''John'']
      [\<lparr>Index = 2, Filter = None, Limit = None\<rparr>] 0 = Return (Inr 4) \<and>
   countSources (\<lambda>(f::unit) v. Inr True)
      [GoInt64 7, Docs [Doc False [], Doc True [], Doc False []], GoString ''John'']
      [\<lparr>Index = 1, Filter = Some (), Limit = Some \<lparr>Limit_Limit = 1, Limit_Offset = 0\<rparr>\<rparr>] 0
     = Return (Inr 2)"
proof -
  let ?flds = "[GoInt64 7, Docs [Doc False [], Doc True [], Doc False []], GoString ''John'']"
  let ?rf = "\<lambda>(f::unit) v. (Inr True :: error + bool)"
  have a: "index ?flds (Index \<lparr>Index = 0, Filter = None :: unit option, Limit = None\<rparr>) = Some (GoInt64 7)"
    by (simp add: index_def)
  have b: "index ?flds (Index \<lparr>Index = 2, Filter = None :: unit option, Limit = None\<rparr>)
      = Some (GoString ''John'')"
    by (simp add: index_def)
  have c: "index ?flds (Index \<lparr>Index = 1, Filter = Some (),
        Limit = Some \<lparr>Limit_Limit = 1, Limit_Offset = 0\<rparr>\<rparr>)
      = Some (Docs [Doc False [], Doc True [], Doc False []])"
    by (simp add: index_def)
  show ?thesis
    using countSources_contribution [OF a, of ?rf "[]" 0]
      countSources_contribution [OF b, of ?rf "[]" 0]
      countSources_contribution [OF c, of ?rf "[]" 0]
    by simp
qed

subsection \<open>C10: Next does not panic on any field value\<close>

text \<open>
  C10 as stated ends with: counting a slice of documents skips entries marked hidden.
  With neither filter nor limit on the target, \<^verbatim>\<open>Next\<close> adds \<^verbatim>\<open>v.Len()\<close>, which counts
  the hidden entry too: the slice below holds one hidden and one visible document and
  the stored count is 2.
\<close>

theorem hidden_docs_counterexample:
  "Next (\<lambda>p. ((True, None), p)) (\<lambda>p. p) (\<lambda>(f::unit) v. Inr True)
     \<lparr>plan = Doc False [Docs [Doc True [], Doc False []], GoNil], virtualFieldIndex = 1,
      aggregateMapping = [\<lparr>Index = 0, Filter = None, Limit = None\<rparr>],
      currentValue = Doc False [], iterations = 0\<rparr>
   = Return ((True, None),
     \<lparr>plan = Doc False [Docs [Doc True [], Doc False []], GoNil], virtualFieldIndex = 1,
      aggregateMapping = [\<lparr>Index = 0, Filter = None, Limit = None\<rparr>],
      currentValue = Doc False [Docs [Doc True [], Doc False []], GoInt 2], iterations = 1\<rparr>)"
  by (simp add: Next_def index_def assign_def)

text \<open>
  C10 as amended. Whatever values the fields hold, \<^verbatim>\<open>countNode.Next\<close> does not panic
  when the indexes of its targets and its own virtual field index lie inside the
  document's fields: \<^verbatim>\<open>Len\<close> is defined exactly on the kinds array, channel, map, slice
  and string, and a value of any other kind leaves the count as it is. A slice of
  documents is counted by \<^verbatim>\<open>countDocs\<close>, which skips the entries marked hidden, when the
  target has a filter or a limit; with neither, every entry of the slice is counted.
\<close>

theorem Next_safe_on_every_value:
  "((\<forall>s \<in> set (aggregateMapping n).
        0 \<le> Index s \<and> Index s < int (length (Fields (plan_Value (snd (plan_Next (plan n))))))) \<and>
     0 \<le> virtualFieldIndex n \<and>
     virtualFieldIndex n < int (length (Fields (plan_Value (snd (plan_Next (plan n))))))
     \<longrightarrow> Next plan_Next plan_Value RunFilter n \<noteq> Panic) \<and>
   (Len v \<noteq> None) = (Kind_of v \<in> {Kind_Array, Kind_Chan, Kind_Map, Kind_Slice, Kind_String}) \<and>
   (index flds (Index source) = Some property \<and>
     Kind_of property \<notin> {Kind_Array, Kind_Chan, Kind_Map, Kind_Slice, Kind_String}
     \<longrightarrow> countSources RunFilter flds (source # sources) count =
           countSources RunFilter flds sources count) \<and>
   countDocs docs = int (length (filter (\<lambda>doc. \<not> Hidden doc) docs)) \<and>
   (index flds (Index source) = Some (Docs docs) \<and>
     (Filter source \<noteq> None \<or> Limit source \<noteq> None)
     \<longrightarrow> countSources RunFilter flds (source # sources) count =
           countSources RunFilter flds sources (count + countDocs docs)) \<and>
   (index flds (Index source) = Some (Docs docs) \<and>
     Filter source = None \<and> Limit source = None
     \<longrightarrow> countSources RunFilter flds (source # sources) count =
           countSources RunFilter flds sources (count + int (length docs)))"
proof -
  have "Len v \<noteq> None \<longleftrightarrow>
      Kind_of v \<in> {Kind_Array, Kind_Chan, Kind_Map, Kind_Slice, Kind_String}"
    using Len_defined [of v] Len_only_defined [of v] by blast
  moreover have "index flds (Index source) = Some (Docs docs) \<Longrightarrow>
      Filter source \<noteq> None \<or> Limit source \<noteq> None \<Longrightarrow>
      countSources RunFilter flds (source # sources) count =
        countSources RunFilter flds sources (count + countDocs docs)"
    by auto
  moreover have "index flds (Index source) = Some (Docs docs) \<Longrightarrow>
      Filter source = None \<Longrightarrow> Limit source = None \<Longrightarrow>
      countSources RunFilter flds (source # sources) count =
        countSources RunFilter flds sources (count + int (length docs))"
    by simp
  ultimately show ?thesis
    using Next_no_panic [of n plan_Value plan_Next RunFilter]
      countSources_other_kind [of flds source property RunFilter sources count]
      countDocs_eq [of docs]
    by blast
qed

text \<open>
  The theorem at a document whose fields hold a pointer, a string, a slice of
  documents with one hidden entry, and the slot of the virtual field.
\<close>

theorem Next_safe_on_every_value_witness:
  "Next (\<lambda>p. ((True, None), p)) (\<lambda>p. p) (\<lambda>(f::unit) v. Inr True)
     \<lparr>plan = Doc False [GoPtr GoNil, GoString ''ab'', Docs [Doc True [], Doc False []], GoNil],
      virtualFieldIndex = 3,
      aggregateMapping = [\<lparr>Index = 0, Filter = None, Limit = None\<rparr>,
                          \<lparr>Index = 1, Filter = None, Limit = None\<rparr>,
                          \<lparr>Index = 2, Filter = Some (), Limit = None\<rparr>],
      currentValue = Doc False [], iterations = 0\<rparr> \<noteq> Panic \<and>
   Len (GoPtr GoNil) = None \<and>
   countSources (\<lambda>(f::unit) v. Inr True) [GoPtr GoNil]
      [\<lparr>Index = 0, Filter = None, Limit = None\<rparr>] 5 = Return (Inr 5) \<and>
   countDocs [Doc True [], Doc False []] = 1 \<and>
   countSources (\<lambda>(f::unit) v. Inr True) [Docs [Doc True [], Doc False []]]
      [\<lparr>Index = 0, Filter = Some (), Limit = None\<rparr>] 0 = Return (Inr 1) \<and>
   countSources (\<lambda>(f::unit) v. Inr True) [Docs [Doc True [], Doc False []]]
      [\<lparr>Index = 0, Filter = None, Limit = None\<rparr>] 0 = Return (Inr 2)"
proof -
  let ?rf = "\<lambda>(f::unit) v. (Inr True :: error + bool)"
  let ?docs = "[Doc True [], Doc False []]"
  let ?n = "\<lparr>plan = Doc False [GoPtr GoNil, GoString ''ab'', Docs ?docs, GoNil],
      virtualFieldIndex = 3,
      aggregateMapping = [\<lparr>Index = 0, Filter = None, Limit = None\<rparr>,
                          \<lparr>Index = 1, Filter = None, Limit = None\<rparr>,
                          \<lparr>Index = 2, Filter = Some (), Limit = None\<rparr>],
      currentValue = Doc False [], iterations = 0 :: 64 word\<rparr>"
  show ?thesis
    using Next_safe_on_every_value [of ?n "\<lambda>p. p" "\<lambda>p. ((True, None), p)" ?rf
        "GoPtr GoNil" "[GoPtr GoNil]" "\<lparr>Index = 0, Filter = None, Limit = None\<rparr>"
        "GoPtr GoNil" "[]" 5 ?docs]
      Next_safe_on_every_value [of ?n "\<lambda>p. p" "\<lambda>p. ((True, None), p)" ?rf
        "GoPtr GoNil" "[Docs ?docs]" "\<lparr>Index = 0, Filter = Some (), Limit = None\<rparr>"
        "GoPtr GoNil" "[]" 0 ?docs]
      Next_safe_on_every_value [of ?n "\<lambda>p. p" "\<lambda>p. ((True, None), p)" ?rf
        "GoPtr GoNil" "[Docs ?docs]" "\<lparr>Index = 0, Filter = None, Limit = None\<rparr>"
        "GoPtr GoNil" "[]" 0 ?docs]
    by (simp add: index_def)
qed

section \<open>Properties of the commit DAG\<close>

lemma write_field_facts:
  assumes "write_field cid_of svid dk st update = (k, st')"
  shows "\<exists>c. blocks st' = (k, c) # blocks st \<and> k = cid_of c \<and> fieldName c \<noteq> None"
    and "heads st' (dk', None) = heads st (dk', None)"
  using assms by (auto simp: write_field_def put_commit_def Let_def)

lemma write_fields_facts:
  assumes "write_fields cid_of svid dk st updates = (ks, st')"
  shows "\<exists>new. blocks st' = new @ blocks st \<and> field_blocks cid_of new"
    and "heads st' (dk', None) = heads st (dk', None)"
    and "fst ` set ks = fst ` set updates"
  using assms
proof (induction updates arbitrary: st ks st')
  case Nil
  {
    case 1 then show ?case by (simp add: field_blocks_def)
  next
    case 2 then show ?case by simp
  next
    case 3 then show ?case by auto
  }
next
  case (Cons update updates)
  {
    case 1
    obtain k st1 where a: "write_field cid_of svid dk st update = (k, st1)" by force
    obtain ks1 st2 where b: "write_fields cid_of svid dk st1 updates = (ks1, st2)" by force
    from 1 a b have st': "st' = st2" by simp
    from write_field_facts(1)[OF a] obtain c where
      c: "blocks st1 = (k, c) # blocks st" "k = cid_of c" "fieldName c \<noteq> None" by blast
    from Cons.IH(1)[OF b] obtain new where
      n: "blocks st2 = new @ blocks st1" "field_blocks cid_of new" by blast
    have "blocks st' = (new @ [(k, c)]) @ blocks st" using st' n c by simp
    moreover have "field_blocks cid_of (new @ [(k, c)])"
      using n c by (auto simp: field_blocks_def)
    ultimately show ?case by blast
  next
    case 2
    obtain k st1 where a: "write_field cid_of svid dk st update = (k, st1)" by force
    obtain ks1 st2 where b: "write_fields cid_of svid dk st1 updates = (ks1, st2)" by force
    from 2 a b have st': "st' = st2" by simp
    show ?case using st' Cons.IH(2)[OF b] write_field_facts(2)[OF a] by simp
  next
    case 3
    obtain k st1 where a: "write_field cid_of svid dk st update = (k, st1)" by force
    obtain ks1 st2 where b: "write_fields cid_of svid dk st1 updates = (ks1, st2)" by force
    from 3 a b have "ks = (fst update, k) # ks1" by simp
    then show ?case using Cons.IH(3)[OF b] by simp
  }
qed

lemma dag_write_facts:
  assumes "dag_write cid_of svid st dk updates = ((k, fcs), st')"
  shows "\<exists>new c. blocks st' = (k, c) # new @ blocks st \<and> field_blocks cid_of new \<and> k = cid_of c \<and>
           height c = 1 + fold max (map (\<lambda>p. case map_of (new @ blocks st) p of
                                            None \<Rightarrow> 0 | Some c \<Rightarrow> height c)
                                  (heads st (dk, None))) 0 \<and>
           links c = fcs @ map (\<lambda>p. ([], p)) (heads st (dk, None)) \<and>
           fieldName c = None \<and> dockey c = dk"
    and "heads st' (dk, None) = [k]"
    and "fst ` set fcs = fst ` set updates"
proof -
  obtain fcs1 st1 where a: "write_fields cid_of svid dk st updates = (fcs1, st1)" by force
  from write_fields_facts(1)[OF a] write_fields_facts(2)[OF a, of dk]
    write_fields_facts(3)[OF a] obtain new where
    n: "blocks st1 = new @ blocks st" "field_blocks cid_of new"
    and h: "heads st1 (dk, None) = heads st (dk, None)"
    and f: "fst ` set fcs1 = fst ` set updates" by blast
  let ?P = "heads st (dk, None)"
  let ?c = "\<lparr>height = next_height st1 ?P, delta = [],
              links = fcs1 @ map (\<lambda>p. ([], p)) ?P,
              schemaVersionID = svid, dockey = dk, fieldName = None\<rparr>"
  from assms a h have k: "k = cid_of ?c" and fcs: "fcs = fcs1"
    and st': "st' = st1\<lparr>blocks := (k, ?c) # blocks st1,
                 heads := (heads st1)((dk, None) := filter (\<lambda>h. h \<notin> set ?P) ?P @ [k])\<rparr>"
    by (auto simp: dag_write_def put_commit_def readHeads_def Let_def)
  have "blocks st' = (k, ?c) # new @ blocks st" using st' n by simp
  moreover have "height ?c = 1 + fold max (map (\<lambda>p. case map_of (new @ blocks st) p of
                                            None \<Rightarrow> 0 | Some c \<Rightarrow> height c) ?P) 0"
    using n by (simp add: next_height_def get_block_def)
  ultimately show "\<exists>new c. blocks st' = (k, c) # new @ blocks st \<and> field_blocks cid_of new \<and> k = cid_of c \<and>
           height c = 1 + fold max (map (\<lambda>p. case map_of (new @ blocks st) p of
                                            None \<Rightarrow> 0 | Some c \<Rightarrow> height c)
                                  (heads st (dk, None))) 0 \<and>
           links c = fcs @ map (\<lambda>p. ([], p)) (heads st (dk, None)) \<and>
           fieldName c = None \<and> dockey c = dk"
    using n(2) k fcs by (intro exI[of _ new] exI[of _ ?c]) simp
  show "heads st' (dk, None) = [k]" using st' by simp
  show "fst ` set fcs = fst ` set updates" using f fcs by simp
qed

lemma field_blocks_miss:
  assumes "inj cid_of" "field_blocks cid_of new" "fieldName c = None"
  shows "map_of new (cid_of c) = None"
proof (rule ccontr)
  assume "map_of new (cid_of c) \<noteq> None"
  then obtain c' where "(cid_of c, c') \<in> set new" by (auto dest: map_of_SomeD)
  with assms(2) have "cid_of c = cid_of c'" "fieldName c' \<noteq> None"
    by (auto simp: field_blocks_def)
  with assms(1,3) show False by (auto dest: injD)
qed


subsection \<open>C1: allCommits after a create and one update\<close>

text \<open>
  C1: a new document is created with the fields \<open>inits\<close> and then one field \<open>f\<close> is
  updated. With a hash that has no collisions and field names that are not empty,
  \<^verbatim>\<open>allCommits\<close> of the document yields exactly two commits, both composite, with the
  heights 2 and 1 in this order, and the composite head set has one member.
\<close>

theorem create_then_update_allCommits:
  assumes "inj cid_of" and "is_new st dk" and "[] \<notin> fst ` set inits" and "f \<noteq> []"
  shows "map (\<lambda>x. height (snd x))
           (allCommits cid_le
              (snd (dag_write cid_of svid (snd (dag_write cid_of svid st dk inits)) dk [(f, v)])) dk)
           = [2, 1] \<and>
         map (\<lambda>x. fieldName (snd x))
           (allCommits cid_le
              (snd (dag_write cid_of svid (snd (dag_write cid_of svid st dk inits)) dk [(f, v)])) dk)
           = [None, None] \<and>
         length (readHeads
              (snd (dag_write cid_of svid (snd (dag_write cid_of svid st dk inits)) dk [(f, v)]))
              dk None) = 1"
proof -
  obtain k1 fcs1 st1 where w1: "dag_write cid_of svid st dk inits = ((k1, fcs1), st1)"
    by (metis prod.collapse)
  obtain k2 fcs2 st2 where w2: "dag_write cid_of svid st1 dk [(f, v)] = ((k2, fcs2), st2)"
    by (metis prod.collapse)
  have h0: "heads st (dk, None) = []" using assms(2) by (simp add: is_new_def)
  from dag_write_facts[OF w1] h0 obtain new1 c1 where
    b1: "blocks st1 = (k1, c1) # new1 @ blocks st" and fb1: "field_blocks cid_of new1"
    and k1: "k1 = cid_of c1" and hc1: "height c1 = 1" and l1: "links c1 = fcs1"
    and fn1: "fieldName c1 = None" and h1: "heads st1 (dk, None) = [k1]"
    and n1: "fst ` set fcs1 = fst ` set inits"
    by auto
  from dag_write_facts[OF w2] h1 obtain new2 c2 where
    b2: "blocks st2 = (k2, c2) # new2 @ blocks st1" and fb2: "field_blocks cid_of new2"
    and k2: "k2 = cid_of c2"
    and hc2: "height c2 = 1 + max (case map_of (new2 @ blocks st1) k1 of None \<Rightarrow> 0 | Some c \<Rightarrow> height c) 0"
    and l2: "links c2 = fcs2 @ [([], k1)]"
    and fn2: "fieldName c2 = None" and h2: "heads st2 (dk, None) = [k2]"
    and n2: "fst ` set fcs2 = {f}"
    by auto
  have miss2: "map_of new2 k1 = None"
    using field_blocks_miss[OF assms(1) fb2 fn1] k1 by simp
  then have look1: "map_of (new2 @ blocks st1) k1 = Some c1"
    using b1 by (simp add: map_add_def)
  with hc2 hc1 have hc2': "height c2 = 2" by simp
  have ne: "k1 \<noteq> k2"
  proof
    assume "k1 = k2"
    with k1 k2 assms(1) have "c1 = c2" by (auto dest: injD)
    with hc1 hc2' show False by simp
  qed
  have p2: "parent_links c2 = [k1]"
  proof -
    have "[] \<notin> fst ` set fcs2" using n2 assms(4) by simp
    then have "filter (\<lambda>l. fst l = []) fcs2 = []"
      by (force simp: filter_empty_conv)
    then show ?thesis by (simp add: parent_links_def fn2 l2)
  qed
  have p1: "parent_links c1 = []"
  proof -
    have "[] \<notin> fst ` set fcs1" using n1 assms(3) by simp
    then have "filter (\<lambda>l. fst l = []) fcs1 = []"
      by (force simp: filter_empty_conv)
    then show ?thesis by (simp add: parent_links_def fn1 l1)
  qed
  have look1': "map_of (blocks st2) k1 = Some c1"
    using b2 look1 ne by simp
  have look2: "map_of (blocks st2) k2 = Some c2"
    using b2 by simp
  have walk: "walkCommits (blocks st2) [k2] [] = [(k2, c2), (k1, c1)]"
    using look1' look2 ne p1 p2 by simp
  have "allCommits cid_le st2 dk = [(k2, c2), (k1, c1)]"
    using walk h2 hc1 hc2'
    by (simp add: allCommits_def readHeads_def canonical_order_def commit_before_def)
  then show ?thesis
    using w1 w2 hc1 hc2' fn1 fn2 h2 by (simp add: readHeads_def)
qed

lemma inj_merkle_cid: "inj merkle_cid"
  by (rule injI) (simp add: merkle_cid_def Commit.equality)


text \<open>
  The theorem at the document of \<^verbatim>\<open>TestQueryAllCommitsMultipleDAG\<close>, created in the
  empty store and updated in its field \<^verbatim>\<open>Age\<close>.
\<close>

theorem create_then_update_allCommits_witness:
  "map (\<lambda>x. height (snd x))
     (allCommits (\<lambda>a b. True)
        (snd (dag_write merkle_cid ''1''
           (snd (dag_write merkle_cid ''1'' empty_dag ''bae-52b9170d-b77a-5887-b877-cbdbb99b009f''
                  [(''Name'', ''John''), (''Age'', ''21'')]))
           ''bae-52b9170d-b77a-5887-b877-cbdbb99b009f'' [(''Age'', ''22'')]))
        ''bae-52b9170d-b77a-5887-b877-cbdbb99b009f'') = [2, 1] \<and>
   length (readHeads
        (snd (dag_write merkle_cid ''1''
           (snd (dag_write merkle_cid ''1'' empty_dag ''bae-52b9170d-b77a-5887-b877-cbdbb99b009f''
                  [(''Name'', ''John''), (''Age'', ''21'')]))
           ''bae-52b9170d-b77a-5887-b877-cbdbb99b009f'' [(''Age'', ''22'')]))
        ''bae-52b9170d-b77a-5887-b877-cbdbb99b009f'' None) = 1"
proof -
  have new: "is_new (empty_dag :: merkle dag) ''bae-52b9170d-b77a-5887-b877-cbdbb99b009f''"
    by (simp add: is_new_def empty_dag_def)
  have names: "[] \<notin> fst ` set [(''Name'', ''John''), (''Age'', ''21'')]" "''Age'' \<noteq> []"
    by simp_all
  show ?thesis
    using create_then_update_allCommits [OF inj_merkle_cid new names,
        of "\<lambda>a b. True" "''1''" "''22''"]
    by simp
qed

section \<open>Properties of the group node\<close>

lemma add_to_bucket_keys:
  "map fst (add_to_bucket k r bs) = (if k \<in> fst ` set bs then map fst bs else map fst bs @ [k])"
proof (induction bs)
  case Nil
  then show ?case by simp
next
  case (Cons b bs)
  obtain k' ms where b: "b = (k', ms)" by (cases b)
  show ?case
  proof (cases "k = k'")
    case True
    then show ?thesis using b by simp
  next
    case False
    then show ?thesis using b Cons.IH by auto
  qed
qed

lemma add_to_bucket_lookup:
  "map_of (add_to_bucket k r bs) k' =
     (if k' = k then Some ((case map_of bs k of None \<Rightarrow> [] | Some ms \<Rightarrow> ms) @ [r])
      else map_of bs k')"
  by (induction bs) auto

lemma add_to_bucket_distinct:
  "distinct (map fst bs) \<Longrightarrow> distinct (map fst (add_to_bucket k r bs))"
  by (simp add: add_to_bucket_keys)

lemma add_to_bucket_keyset:
  "fst ` set (add_to_bucket k r bs) = insert k (fst ` set bs)"
proof -
  have "set (map fst (add_to_bucket k r bs)) = insert k (set (map fst bs))"
    unfolding add_to_bucket_keys by auto
  then show ?thesis by simp
qed

lemma fold_buckets_distinct:
  "distinct (map fst bs) \<Longrightarrow>
   distinct (map fst (fold (\<lambda>r. add_to_bucket (key_tuple gb r) r) rows bs))"
  by (induction rows arbitrary: bs) (simp_all add: add_to_bucket_distinct)

lemma fold_buckets_keyset:
  "fst ` set (fold (\<lambda>r. add_to_bucket (key_tuple gb r) r) rows bs)
     = fst ` set bs \<union> key_tuple gb ` set rows"
  by (induction rows arbitrary: bs) (simp_all add: add_to_bucket_keyset)

lemma members_of_add:
  "members_of (add_to_bucket k r bs) k' = (if k' = k then members_of bs k @ [r] else members_of bs k')"
  by (simp add: members_of_def add_to_bucket_lookup)

lemma fold_buckets_members:
  "members_of (fold (\<lambda>r. add_to_bucket (key_tuple gb r) r) rows bs) k
     = members_of bs k @ filter (\<lambda>r. key_tuple gb r = k) rows"
  by (induction rows arbitrary: bs) (simp_all add: members_of_add)

lemma bucket_rows_members:
  assumes "b \<in> set (bucket_rows groupBy rows)"
  shows "snd b = filter (\<lambda>r. key_tuple groupBy r = fst b) rows"
proof -
  have d: "distinct (map fst (bucket_rows groupBy rows))"
    unfolding bucket_rows_def by (rule fold_buckets_distinct) simp
  from assms have "(fst b, snd b) \<in> set (bucket_rows groupBy rows)" by simp
  with d have "map_of (bucket_rows groupBy rows) (fst b) = Some (snd b)"
    by (rule map_of_is_SomeI)
  then have "snd b = members_of (bucket_rows groupBy rows) (fst b)"
    by (simp add: members_of_def)
  also have "\<dots> = filter (\<lambda>r. key_tuple groupBy r = fst b) rows"
    using fold_buckets_members [of groupBy rows "[]" "fst b"]
    by (simp add: bucket_rows_def members_of_def)
  finally show ?thesis .
qed

lemma groupNode_dockeys:
  "groupNode passes groupBy \<lparr>group_dockeys = Some allow, group_filter = None, group_limit = None\<rparr> rows
     = map (\<lambda>b. (fst b, filter (\<lambda>r. row_dockey r \<in> set allow) (snd b))) (bucket_rows groupBy rows)"
  by (simp add: groupNode_def render_group_def)

subsection \<open>C6: the allow-list of document keys on a group\<close>

text \<open>
  C6: rows are grouped and \<^verbatim>\<open>_group\<close> carries an allow-list of document keys (and no
  inner filter or pagination). The buckets of the result are exactly the group keys of
  the rows, whatever the allow-list holds; the \<^verbatim>\<open>_group\<close> list of each bucket is exactly
  the rows of that group key whose document key is in the allow-list, in the order of
  the rows; and a bucket none of whose members is in the allow-list is in the result
  with the empty list.
\<close>

theorem group_dockeys_allow_list:
  "fst ` set (groupNode passes groupBy
       \<lparr>group_dockeys = Some allow, group_filter = None, group_limit = None\<rparr> rows)
     = key_tuple groupBy ` set rows \<and>
   (\<forall>b \<in> set (groupNode passes groupBy
       \<lparr>group_dockeys = Some allow, group_filter = None, group_limit = None\<rparr> rows).
      snd b = filter (\<lambda>r. key_tuple groupBy r = fst b \<and> row_dockey r \<in> set allow) rows) \<and>
   (\<forall>r \<in> set rows.
      (\<forall>r' \<in> set rows. key_tuple groupBy r' = key_tuple groupBy r \<longrightarrow> row_dockey r' \<notin> set allow)
      \<longrightarrow> (key_tuple groupBy r, []) \<in> set (groupNode passes groupBy
             \<lparr>group_dockeys = Some allow, group_filter = None, group_limit = None\<rparr> rows))"
proof -
  let ?G = "groupNode passes groupBy
       \<lparr>group_dockeys = Some allow, group_filter = None, group_limit = None\<rparr> rows"
  let ?B = "bucket_rows groupBy rows"
  have keys: "fst ` set ?G = key_tuple groupBy ` set rows"
  proof -
    have "fst ` set ?G = fst ` set ?B"
      by (force simp: groupNode_dockeys)
    also have "\<dots> = key_tuple groupBy ` set rows"
      unfolding bucket_rows_def by (simp add: fold_buckets_keyset)
    finally show ?thesis .
  qed
  have members: "snd b = filter (\<lambda>r. key_tuple groupBy r = fst b \<and> row_dockey r \<in> set allow) rows"
    if "b \<in> set ?G" for b
  proof -
    from that obtain b' where b': "b' \<in> set ?B"
      and b: "b = (fst b', filter (\<lambda>r. row_dockey r \<in> set allow) (snd b'))"
      by (auto simp: groupNode_dockeys)
    from bucket_rows_members[OF b'] b show ?thesis
      by simp
  qed
  have empty: "(key_tuple groupBy r, []) \<in> set ?G"
    if r: "r \<in> set rows"
      and none: "\<forall>r' \<in> set rows. key_tuple groupBy r' = key_tuple groupBy r \<longrightarrow> row_dockey r' \<notin> set allow"
    for r
  proof -
    from r keys have "key_tuple groupBy r \<in> fst ` set ?G" by blast
    then obtain b where b: "b \<in> set ?G" "fst b = key_tuple groupBy r" by auto
    have "snd b = []"
      using members[OF b(1)] b(2) none by (simp add: filter_empty_conv)
    with b show ?thesis by (metis prod.collapse)
  qed
  show ?thesis using keys members empty by blast
qed

text \<open>
  The theorem at the documents and the allow-list of the test: the bucket of age 32
  has the empty list, the bucket of age 21 has John and Fred.
\<close>

theorem group_dockeys_allow_list_witness:
  "map (\<lambda>b. (fst b, map row_cells (snd b)))
     (groupNode (\<lambda>(f::unit) r. True) [1]
       \<lparr>group_dockeys = Some [''bae-52b9170d-b77a-5887-b877-cbdbb99b009f'',
                               ''bae-9b2e1434-9d61-5eb1-b3b9-82e8e40729a7''],
        group_filter = None, group_limit = None\<rparr> rows_by_age)
   = [([Some (GoInt64 32)], []),
      ([Some (GoInt64 21)], [[GoString ''John'', GoInt64 21], [GoString ''Fred'', GoInt64 21]])]"
  using group_dockeys_allow_list [of "\<lambda>(f::unit) r. True" "[1]"
      "[''bae-52b9170d-b77a-5887-b877-cbdbb99b009f'', ''bae-9b2e1434-9d61-5eb1-b3b9-82e8e40729a7'']"
      rows_by_age]
  by (simp add: rows_by_age_def groupNode_def render_group_def bucket_rows_def key_tuple_def)

end
